theory Spec2Isabelle
  imports Main
begin

section \<open>Policy document model\<close>

text \<open>
  Modelled from the spec: the types \<open>policyToken\<close>, \<open>policyResource\<close>,
  \<open>policySubject\<close> and \<open>policy\<close> are declared in a file of the package that is not
  among the sources. Their fields are the ones \<open>server.go\<close> reads (\<open>tok.EnvVar\<close>,
  \<open>candidate.ID\<close>, \<open>resource.Actions\<close>, \<open>sub.ID\<close>, \<open>sub.Tokens\<close>,
  \<open>sub.Resources\<close>, \<open>c.Subjects\<close>), with the shape the policy document has:
  a sequence of subjects, each with an identifier, a list of token sources and a list
  of resources, each resource with an identifier and a list of action names.
  Go slices are lists; a Go string is a list of bytes.
\<close>

record policyToken =
  EnvVar :: string

record policyResource =
  ID :: string
  Actions :: "string list"

record policySubject =
  ID :: string
  Tokens :: "policyToken list"
  Resources :: "policyResource list"

record policy =
  Subjects :: "policySubject list"


section \<open>The access decision\<close>

text \<open>
  The first loop of \<open>checkAccess\<close>:
  \<^verbatim>\<open>
  for _, candidate := range sub.Resources {
      if candidate.ID == resourceID {
          resource = candidate
          found = true
      }
  }
  \<close>
  The pair \<open>(resource, found)\<close> is the loop's state. The loop has no \<open>break\<close>: it
  visits every candidate, and each matching candidate overwrites \<open>resource\<close>.
\<close>

fun checkAccess_scan ::
  "policyResource list \<Rightarrow> string \<Rightarrow> policyResource \<times> bool \<Rightarrow> policyResource \<times> bool"
where
  "checkAccess_scan [] resourceID (resource, found) = (resource, found)"
| "checkAccess_scan (candidate # rest) resourceID (resource, found) =
     (if policyResource.ID candidate = resourceID
      then checkAccess_scan rest resourceID (candidate, True)
      else checkAccess_scan rest resourceID (resource, found))"

text \<open>
  The second loop of \<open>checkAccess\<close>, with the \<open>return false\<close> that follows it:
  \<^verbatim>\<open>
  for _, candidate := range resource.Actions {
      if candidate == action {
          return true
      }
  }
  return false
  \<close>
\<close>

fun checkAccess_actions :: "string list \<Rightarrow> string \<Rightarrow> bool" where
  "checkAccess_actions [] action = False"
| "checkAccess_actions (candidate # rest) action =
     (if candidate = action then True else checkAccess_actions rest action)"

text \<open>
  \<open>var resource policyResource\<close> starts as the zero value of the struct (empty
  identifier, nil slice), \<open>var found bool\<close> as \<open>false\<close>.
\<close>

definition zero_policyResource :: policyResource where
  "zero_policyResource = \<lparr>policyResource.ID = [], policyResource.Actions = []\<rparr>"

definition checkAccess :: "policySubject \<Rightarrow> string \<Rightarrow> string \<Rightarrow> bool" where
  "checkAccess sub action resourceID =
     (case checkAccess_scan (Resources sub) resourceID (zero_policyResource, False) of
        (resource, found) \<Rightarrow>
          if \<not> found then False
          else checkAccess_actions (policyResource.Actions resource) action)"

text \<open>
  The decision as the specification words it, for comparison with the code: the entry
  consulted is the first one whose identifier equals \<open>resourceID\<close> ("first match
  wins"), and the answer is membership of the action in that entry's action set.
\<close>

definition spec_checkAccess_first_match :: "policySubject \<Rightarrow> string \<Rightarrow> string \<Rightarrow> bool" where
  "spec_checkAccess_first_match sub action resourceID =
     (case find (\<lambda>c. policyResource.ID c = resourceID) (Resources sub) of
        None \<Rightarrow> False
      | Some r \<Rightarrow> action \<in> set (policyResource.Actions r))"


text \<open>
  The same decision read from the end of the resource list: the entry consulted is the
  last one whose identifier equals \<open>resourceID\<close>.
\<close>

definition checkAccess_last_match :: "policySubject \<Rightarrow> string \<Rightarrow> string \<Rightarrow> bool" where
  "checkAccess_last_match sub action resourceID =
     (case find (\<lambda>c. policyResource.ID c = resourceID) (rev (Resources sub)) of
        None \<Rightarrow> False
      | Some r \<Rightarrow> action \<in> set (policyResource.Actions r))"


section \<open>The server and its construction\<close>

text \<open>
  The \<open>server\<close> struct holds the map from token values to subjects and a logger. The
  map \<open>map[string]policySubject\<close> is a partial function. The logger is a pointer to
  a sink of the logging library; the model keeps the sequence of messages sent to it,
  so that a handler's only effect, the log line, is visible in the state it returns.
\<close>

type_synonym SugaredLogger = "string list"

record server =
  tokens :: "string \<rightharpoonup> policySubject"
  logger :: SugaredLogger

text \<open>
  Modelled from the spec: the sentinel errors \<open>ErrMissingValue\<close> and
  \<open>ErrDuplicateValue\<close> are declared in a file of the package that is not among the
  sources; the specification lists them as the two configuration errors of the build
  step (a source resolved to the empty string; two sources resolved to one value).
\<close>

datatype sentinel = ErrMissingValue | ErrDuplicateValue

text \<open>
  \<open>fmt.Errorf("%s: %s: %w", sub.ID, tok.EnvVar, err)\<close> wraps a sentinel together
  with the subject's identifier and the name of the environment variable; the model
  keeps the three arguments in this order.
\<close>

datatype error = Errorf string string sentinel

text \<open>
  The inner loop of \<open>newFromPolicy\<close>, over the tokens of one subject. The map under
  construction is threaded through; \<open>os.Getenv\<close> is the parameter \<open>Getenv\<close> (it
  yields the empty string for a variable that is not set).
\<close>

fun newFromPolicy_tokens ::
  "(string \<Rightarrow> string) \<Rightarrow> policySubject \<Rightarrow> policyToken list \<Rightarrow>
     (string \<rightharpoonup> policySubject) \<Rightarrow> error + (string \<rightharpoonup> policySubject)"
where
  "newFromPolicy_tokens Getenv sub [] toks = Inr toks"
| "newFromPolicy_tokens Getenv sub (tok # rest) toks =
     (let tokValue = Getenv (EnvVar tok) in
      if tokValue = [] then Inl (Errorf (policySubject.ID sub) (EnvVar tok) ErrMissingValue)
      else if toks tokValue \<noteq> None
        then Inl (Errorf (policySubject.ID sub) (EnvVar tok) ErrDuplicateValue)
      else newFromPolicy_tokens Getenv sub rest (toks(tokValue \<mapsto> sub)))"

text \<open>The outer loop, over the subjects of the policy.\<close>

fun newFromPolicy_subjects ::
  "(string \<Rightarrow> string) \<Rightarrow> policySubject list \<Rightarrow>
     (string \<rightharpoonup> policySubject) \<Rightarrow> error + (string \<rightharpoonup> policySubject)"
where
  "newFromPolicy_subjects Getenv [] toks = Inr toks"
| "newFromPolicy_subjects Getenv (sub # rest) toks =
     (case newFromPolicy_tokens Getenv sub (Tokens sub) toks of
        Inl err \<Rightarrow> Inl err
      | Inr toks' \<Rightarrow> newFromPolicy_subjects Getenv rest toks')"

text \<open>
  \<open>newFromPolicy\<close> returns \<open>(nil, err)\<close> on failure and the server on success; the
  sum type has no third case, so a failed build carries no table.
\<close>

definition newFromPolicy ::
  "(string \<Rightarrow> string) \<Rightarrow> policy \<Rightarrow> SugaredLogger \<Rightarrow> error + server"
where
  "newFromPolicy Getenv c lg =
     (case newFromPolicy_subjects Getenv (Subjects c) Map.empty of
        Inl err \<Rightarrow> Inl err
      | Inr toks \<Rightarrow> Inr \<lparr>tokens = toks, logger = lg\<rparr>)"


text \<open>
  The credential sources of a policy in the order the two loops visit them: the
  subjects in document order, each with its tokens in order. \<open>resolve\<close> is the value
  the build reads for a source.
\<close>

definition sources :: "policy \<Rightarrow> (policySubject \<times> policyToken) list" where
  "sources c = concat (map (\<lambda>sub. map (Pair sub) (Tokens sub)) (Subjects c))"

definition resolve :: "(string \<Rightarrow> string) \<Rightarrow> policySubject \<times> policyToken \<Rightarrow> string" where
  "resolve Getenv x = Getenv (EnvVar (snd x))"

text \<open>
  The two nested loops read as one loop over \<open>sources\<close>; \<open>newFromPolicy_subjects\<close>
  is shown below to compute exactly this.
\<close>

fun newFromPolicy_sources ::
  "(string \<Rightarrow> string) \<Rightarrow> (policySubject \<times> policyToken) list \<Rightarrow>
     (string \<rightharpoonup> policySubject) \<Rightarrow> error + (string \<rightharpoonup> policySubject)"
where
  "newFromPolicy_sources Getenv [] toks = Inr toks"
| "newFromPolicy_sources Getenv (x # rest) toks =
     (if resolve Getenv x = []
        then Inl (Errorf (policySubject.ID (fst x)) (EnvVar (snd x)) ErrMissingValue)
      else if toks (resolve Getenv x) \<noteq> None
        then Inl (Errorf (policySubject.ID (fst x)) (EnvVar (snd x)) ErrDuplicateValue)
      else newFromPolicy_sources Getenv rest (toks(resolve Getenv x \<mapsto> fst x)))"


section \<open>The two request handlers\<close>

text \<open>
  Request and response messages, and the status error of the RPC library, with the
  fields and the two codes the handlers use. \<open>status.Errorf(code, format, ...)\<close> is a
  code with the formatted message.
\<close>

datatype code = Unauthenticated | PermissionDenied

datatype status = Status code string

record AuthenticateSubjectRequest =
  Credential :: string

record AuthenticateSubjectResponse =
  SubjectClaims :: "string \<rightharpoonup> string"

record AccessRequestAction =
  Action :: string
  ResourceId :: string

record CheckAccessRequest =
  Credential :: string
  Actions :: "AccessRequestAction list"

datatype CheckAccessResponse = CheckAccessResponse

definition Info :: "SugaredLogger \<Rightarrow> string \<Rightarrow> SugaredLogger" where
  "Info lg msg = lg @ [msg]"

text \<open>
  \<open>AuthenticateSubject\<close> logs, looks the credential up and answers with the claim map
  of the subject found. The handler returns its answer and the server afterwards.
\<close>

definition AuthenticateSubject ::
  "server \<Rightarrow> AuthenticateSubjectRequest \<Rightarrow>
     (status + AuthenticateSubjectResponse) \<times> server"
where
  "AuthenticateSubject s req =
     (let s' = s\<lparr>logger := Info (logger s) ''received AuthenticateSubject request''\<rparr> in
      case tokens s' (AuthenticateSubjectRequest.Credential req) of
        None \<Rightarrow> (Inl (Status Unauthenticated ''invalid credential''), s')
      | Some sub \<Rightarrow>
          (Inr \<lparr>SubjectClaims = [''sub'' \<mapsto> policySubject.ID sub]\<rparr>, s'))"

text \<open>
  The message of the permission error,
  \<open>"subject does not have permission to perform '%s' on resource '%s'"\<close>.
\<close>

definition denied_message :: "string \<Rightarrow> string \<Rightarrow> string" where
  "denied_message action resourceId =
     ''subject does not have permission to perform '' @ [CHR 0x27] @ action @ [CHR 0x27]
       @ '' on resource '' @ [CHR 0x27] @ resourceId @ [CHR 0x27]"

text \<open>
  The loop of \<open>CheckAccess\<close> over the requested pairs, with the success return after
  it: the first pair that \<open>checkAccess\<close> refuses ends the loop with an error.
\<close>

fun CheckAccess_actions ::
  "policySubject \<Rightarrow> AccessRequestAction list \<Rightarrow> status + CheckAccessResponse"
where
  "CheckAccess_actions sub [] = Inr CheckAccessResponse"
| "CheckAccess_actions sub (action # rest) =
     (if \<not> checkAccess sub (Action action) (ResourceId action)
      then Inl (Status PermissionDenied
                  (denied_message (Action action) (ResourceId action)))
      else CheckAccess_actions sub rest)"

definition CheckAccess ::
  "server \<Rightarrow> CheckAccessRequest \<Rightarrow> (status + CheckAccessResponse) \<times> server"
where
  "CheckAccess s req =
     (let s' = s\<lparr>logger := Info (logger s) ''received CheckAccess request''\<rparr> in
      case tokens s' (CheckAccessRequest.Credential req) of
        None \<Rightarrow> (Inl (Status Unauthenticated ''invalid credential''), s')
      | Some sub \<Rightarrow> (CheckAccess_actions sub (CheckAccessRequest.Actions req), s'))"


text \<open>
  The server answers requests one after the other; each handler returns the server it
  leaves behind. \<open>serve\<close> is that state after one request, \<open>serve_all\<close> after a
  sequence of requests.
\<close>

datatype request =
  AuthenticateSubjectCall AuthenticateSubjectRequest
| CheckAccessCall CheckAccessRequest

fun serve :: "server \<Rightarrow> request \<Rightarrow> server" where
  "serve s (AuthenticateSubjectCall req) = snd (AuthenticateSubject s req)"
| "serve s (CheckAccessCall req) = snd (CheckAccess s req)"

definition serve_all :: "server \<Rightarrow> request list \<Rightarrow> server" where
  "serve_all s reqs = foldl serve s reqs"


section \<open>Example inputs\<close>

text \<open>
  The subject of the specification's end-to-end example, \<open>svc-a\<close> with the token
  source \<open>TOKEN_A\<close> and \<open>read\<close> on \<open>db1\<close>, in an environment where \<open>TOKEN_A\<close>
  is \<open>abc123\<close>.
\<close>

definition example_subject :: policySubject where
  "example_subject =
     \<lparr>policySubject.ID = ''svc-a'', Tokens = [\<lparr>EnvVar = ''TOKEN_A''\<rparr>],
      Resources = [\<lparr>policyResource.ID = ''db1'', policyResource.Actions = [''read'']\<rparr>]\<rparr>"

definition example_policy :: policy where
  "example_policy = \<lparr>Subjects = [example_subject]\<rparr>"

definition example_Getenv :: "string \<Rightarrow> string" where
  "example_Getenv v = (if v = ''TOKEN_A'' then ''abc123'' else [])"

definition example_server :: server where
  "example_server = \<lparr>tokens = [''abc123'' \<mapsto> example_subject], logger = []\<rparr>"







section \<open>Properties of the access decision\<close>

lemma checkAccess_actions_iff: "checkAccess_actions as a \<longleftrightarrow> a \<in> set as"
  by (induction as) auto

text \<open>
  What the scan leaves in its state: the last candidate with the wanted identifier if
  there is one, the state it started with otherwise.
\<close>

lemma checkAccess_scan_eq:
  "checkAccess_scan rs rid (r0, f0) =
     (case filter (\<lambda>c. policyResource.ID c = rid) rs of
        [] \<Rightarrow> (r0, f0)
      | m # ms \<Rightarrow> (last (m # ms), True))"
proof (induction rs arbitrary: r0 f0)
  case Nil
  show ?case by simp
next
  case (Cons c cs)
  show ?case
  proof (cases "policyResource.ID c = rid")
    case True
    then show ?thesis
      using Cons.IH [of c True] by (simp split: list.splits)
  next
    case False
    then show ?thesis
      using Cons.IH [of r0 f0] by simp
  qed
qed

lemma filter_ID_distinct:
  assumes "distinct (map policyResource.ID rs)" and "r \<in> set rs"
  shows "filter (\<lambda>c. policyResource.ID c = policyResource.ID r) rs = [r]"
  using assms
proof (induction rs)
  case Nil
  then show ?case by simp
next
  case (Cons c cs)
  show ?case
  proof (cases "c = r")
    case True
    with Cons.prems(1) have "policyResource.ID r \<notin> policyResource.ID ` set cs"
      by simp
    then have "\<forall>x \<in> set cs. policyResource.ID x \<noteq> policyResource.ID r"
      by (metis imageI)
    then have "filter (\<lambda>c. policyResource.ID c = policyResource.ID r) cs = []"
      by (simp add: filter_empty_conv)
    with True show ?thesis by simp
  next
    case False
    with Cons.prems have in_cs: "r \<in> set cs" and d: "distinct (map policyResource.ID cs)"
      by auto
    from Cons.prems(1) in_cs have "policyResource.ID c \<noteq> policyResource.ID r"
      by auto
    with Cons.IH [OF d in_cs] show ?thesis by simp
  qed
qed

text \<open>
  Claim C1. For a subject whose resource identifiers are pairwise distinct, a resource
  \<open>r\<close> among its resources and any action \<open>a\<close>, \<open>checkAccess\<close> on \<open>r\<close>'s identifier
  is true exactly when \<open>a\<close> is, as a string, one of \<open>r\<close>'s allowed actions.
\<close>

theorem checkAccess_distinct_iff:
  assumes "distinct (map policyResource.ID (Resources s))"
    and "r \<in> set (Resources s)"
  shows "checkAccess s a (policyResource.ID r) \<longleftrightarrow> a \<in> set (policyResource.Actions r)"
  using filter_ID_distinct [OF assms]
  by (simp add: checkAccess_def checkAccess_scan_eq checkAccess_actions_iff)

theorem checkAccess_distinct_iff_witness:
  "distinct (map policyResource.ID
      (Resources \<lparr>policySubject.ID = ''svc-a'', Tokens = [\<lparr>EnvVar = ''TOKEN_A''\<rparr>],
         Resources = [\<lparr>policyResource.ID = ''db1'', policyResource.Actions = [''read'']\<rparr>,
                      \<lparr>policyResource.ID = ''db2'', policyResource.Actions = [''write'']\<rparr>]\<rparr>))
   \<and> \<lparr>policyResource.ID = ''db1'', policyResource.Actions = [''read'']\<rparr>
       \<in> set (Resources \<lparr>policySubject.ID = ''svc-a'', Tokens = [\<lparr>EnvVar = ''TOKEN_A''\<rparr>],
         Resources = [\<lparr>policyResource.ID = ''db1'', policyResource.Actions = [''read'']\<rparr>,
                      \<lparr>policyResource.ID = ''db2'', policyResource.Actions = [''write'']\<rparr>]\<rparr>)
   \<and> checkAccess \<lparr>policySubject.ID = ''svc-a'', Tokens = [\<lparr>EnvVar = ''TOKEN_A''\<rparr>],
         Resources = [\<lparr>policyResource.ID = ''db1'', policyResource.Actions = [''read'']\<rparr>,
                      \<lparr>policyResource.ID = ''db2'', policyResource.Actions = [''write'']\<rparr>]\<rparr>
        ''read'' ''db1''
   \<and> \<not> checkAccess \<lparr>policySubject.ID = ''svc-a'', Tokens = [\<lparr>EnvVar = ''TOKEN_A''\<rparr>],
         Resources = [\<lparr>policyResource.ID = ''db1'', policyResource.Actions = [''read'']\<rparr>,
                      \<lparr>policyResource.ID = ''db2'', policyResource.Actions = [''write'']\<rparr>]\<rparr>
        ''write'' ''db1''"
proof -
  let ?r = "\<lparr>policyResource.ID = ''db1'', policyResource.Actions = [''read'']\<rparr>"
  let ?s = "\<lparr>policySubject.ID = ''svc-a'', Tokens = [\<lparr>EnvVar = ''TOKEN_A''\<rparr>],
         Resources = [?r, \<lparr>policyResource.ID = ''db2'', policyResource.Actions = [''write'']\<rparr>]\<rparr>"
  have d: "distinct (map policyResource.ID (Resources ?s))" by simp
  have m: "?r \<in> set (Resources ?s)" by simp
  show ?thesis
    using d m checkAccess_distinct_iff [OF d m, of "''read''"]
      checkAccess_distinct_iff [OF d m, of "''write''"]
    by simp
qed

text \<open>
  Claim C3. When no resource of the subject has the identifier asked for,
  \<open>checkAccess\<close> returns false, whatever the action.
\<close>

theorem checkAccess_unknown_resource:
  assumes "rid \<notin> policyResource.ID ` set (Resources s)"
  shows "checkAccess s a rid = False"
proof -
  from assms have "filter (\<lambda>c. policyResource.ID c = rid) (Resources s) = []"
    by (auto simp: filter_empty_conv)
  then show ?thesis
    by (simp add: checkAccess_def checkAccess_scan_eq)
qed

theorem checkAccess_unknown_resource_witness:
  "''db9'' \<notin> policyResource.ID ` set (Resources
      \<lparr>policySubject.ID = ''svc-a'', Tokens = [\<lparr>EnvVar = ''TOKEN_A''\<rparr>],
       Resources = [\<lparr>policyResource.ID = ''db1'', policyResource.Actions = [''read'']\<rparr>]\<rparr>)
   \<and> checkAccess
      \<lparr>policySubject.ID = ''svc-a'', Tokens = [\<lparr>EnvVar = ''TOKEN_A''\<rparr>],
       Resources = [\<lparr>policyResource.ID = ''db1'', policyResource.Actions = [''read'']\<rparr>]\<rparr>
      ''read'' ''db9'' = False"
proof -
  let ?s = "\<lparr>policySubject.ID = ''svc-a'', Tokens = [\<lparr>EnvVar = ''TOKEN_A''\<rparr>],
       Resources = [\<lparr>policyResource.ID = ''db1'', policyResource.Actions = [''read'']\<rparr>]\<rparr>"
  have h: "''db9'' \<notin> policyResource.ID ` set (Resources ?s)" by simp
  show ?thesis
    using h checkAccess_unknown_resource [OF h, of "''read''"] by simp
qed

lemma find_rev_filter:
  "find P (rev xs) = (case filter P xs of [] \<Rightarrow> None | m # ms \<Rightarrow> Some (last (m # ms)))"
proof (induction xs rule: rev_induct)
  case Nil
  show ?case by simp
next
  case (snoc y ys)
  then show ?case by (simp split: list.splits)
qed

text \<open>
  Claim C2, as stated: with several entries of one identifier, the decision is the one
  of the first matching entry. It fails on a subject that lists \<open>db1\<close> twice, first
  with \<open>read\<close>, then with \<open>write\<close>: the code refuses \<open>read\<close>.
\<close>

theorem checkAccess_first_match_counterexample:
  "checkAccess
     \<lparr>policySubject.ID = ''svc-a'', Tokens = [],
      Resources = [\<lparr>policyResource.ID = ''db1'', policyResource.Actions = [''read'']\<rparr>,
                   \<lparr>policyResource.ID = ''db1'', policyResource.Actions = [''write'']\<rparr>]\<rparr>
     ''read'' ''db1''
   \<noteq> spec_checkAccess_first_match
     \<lparr>policySubject.ID = ''svc-a'', Tokens = [],
      Resources = [\<lparr>policyResource.ID = ''db1'', policyResource.Actions = [''read'']\<rparr>,
                   \<lparr>policyResource.ID = ''db1'', policyResource.Actions = [''write'']\<rparr>]\<rparr>
     ''read'' ''db1''"
  by (simp add: checkAccess_def spec_checkAccess_first_match_def zero_policyResource_def)

text \<open>
  Claim C2, amended: for every subject, action and resource identifier, the decision
  is the one of the last entry whose identifier equals the one asked for (false when
  there is none): the scan has no early exit, so a later match replaces an earlier one.
\<close>

theorem checkAccess_last_match_wins:
  "checkAccess s a rid = checkAccess_last_match s a rid"
  by (simp add: checkAccess_def checkAccess_last_match_def checkAccess_scan_eq
      find_rev_filter checkAccess_actions_iff split: list.splits)

theorem checkAccess_last_match_wins_witness:
  "checkAccess
     \<lparr>policySubject.ID = ''svc-a'', Tokens = [],
      Resources = [\<lparr>policyResource.ID = ''db1'', policyResource.Actions = [''read'']\<rparr>,
                   \<lparr>policyResource.ID = ''db1'', policyResource.Actions = [''write'']\<rparr>]\<rparr>
     ''write'' ''db1''
   \<and> checkAccess_last_match
     \<lparr>policySubject.ID = ''svc-a'', Tokens = [],
      Resources = [\<lparr>policyResource.ID = ''db1'', policyResource.Actions = [''read'']\<rparr>,
                   \<lparr>policyResource.ID = ''db1'', policyResource.Actions = [''write'']\<rparr>]\<rparr>
     ''write'' ''db1''"
  using checkAccess_last_match_wins
    [of "\<lparr>policySubject.ID = ''svc-a'', Tokens = [],
      Resources = [\<lparr>policyResource.ID = ''db1'', policyResource.Actions = [''read'']\<rparr>,
                   \<lparr>policyResource.ID = ''db1'', policyResource.Actions = [''write'']\<rparr>]\<rparr>"
        "''write''" "''db1''"]
  by (simp add: checkAccess_last_match_def)

section \<open>Properties of the build\<close>

lemma tokens_as_sources:
  "newFromPolicy_tokens G sub toks t = newFromPolicy_sources G (map (Pair sub) toks) t"
  by (induction toks arbitrary: t) (simp_all add: resolve_def Let_def)

lemma sources_append:
  "newFromPolicy_sources G (xs @ ys) t =
     (case newFromPolicy_sources G xs t of
        Inl err \<Rightarrow> Inl err
      | Inr t' \<Rightarrow> newFromPolicy_sources G ys t')"
  by (induction xs arbitrary: t) simp_all

lemma subjects_as_sources:
  "newFromPolicy_subjects G subs t =
     newFromPolicy_sources G (concat (map (\<lambda>sub. map (Pair sub) (Tokens sub)) subs)) t"
  by (induction subs arbitrary: t)
     (simp_all add: tokens_as_sources sources_append split: sum.splits)

lemma newFromPolicy_as_sources:
  "newFromPolicy G c lg =
     (case newFromPolicy_sources G (sources c) Map.empty of
        Inl err \<Rightarrow> Inl err
      | Inr toks \<Rightarrow> Inr \<lparr>tokens = toks, logger = lg\<rparr>)"
  by (simp add: newFromPolicy_def subjects_as_sources sources_def)

text \<open>
  A prefix of non-empty, pairwise distinct values, none of them in the table yet, is
  inserted whole.
\<close>

lemma sources_good_prefix:
  assumes "\<forall>y \<in> set pre. resolve G y \<noteq> []"
    and "distinct (map (resolve G) pre)"
    and "resolve G ` set pre \<inter> dom t = {}"
  shows "\<exists>t'. newFromPolicy_sources G pre t = Inr t'
           \<and> dom t' = dom t \<union> resolve G ` set pre
           \<and> (\<forall>y \<in> set pre. t' (resolve G y) = Some (fst y))
           \<and> (\<forall>k. k \<notin> resolve G ` set pre \<longrightarrow> t' k = t k)"
  using assms
proof (induction pre arbitrary: t)
  case Nil
  then show ?case by simp
next
  case (Cons x xs)
  let ?t = "t(resolve G x \<mapsto> fst x)"
  from Cons.prems have x_ne: "resolve G x \<noteq> []" and x_new: "t (resolve G x) = None"
    by auto
  from Cons.prems have 1: "\<forall>y \<in> set xs. resolve G y \<noteq> []"
    and 2: "distinct (map (resolve G) xs)"
    and x_notin: "resolve G x \<notin> resolve G ` set xs"
    by auto
  from Cons.prems(3) x_notin have 3: "resolve G ` set xs \<inter> dom ?t = {}"
    by auto
  from Cons.IH [OF 1 2 3] obtain t' where
    r: "newFromPolicy_sources G xs ?t = Inr t'"
    and d: "dom t' = dom ?t \<union> resolve G ` set xs"
    and v: "\<forall>y \<in> set xs. t' (resolve G y) = Some (fst y)"
    and o: "\<forall>k. k \<notin> resolve G ` set xs \<longrightarrow> t' k = ?t k"
    by blast
  have "newFromPolicy_sources G (x # xs) t = Inr t'"
    using x_ne x_new r by simp
  moreover have "dom t' = dom t \<union> resolve G ` set (x # xs)"
    using d by auto
  moreover have "\<forall>y \<in> set (x # xs). t' (resolve G y) = Some (fst y)"
    using v o x_notin by auto
  moreover have "\<forall>k. k \<notin> resolve G ` set (x # xs) \<longrightarrow> t' k = t k"
    using o by auto
  ultimately show ?case by blast
qed

text \<open>A successful build has seen only non-empty, pairwise distinct, new values.\<close>

lemma sources_success:
  assumes "newFromPolicy_sources G xs t = Inr t'"
  shows "(\<forall>y \<in> set xs. resolve G y \<noteq> []) \<and> distinct (map (resolve G) xs)
           \<and> resolve G ` set xs \<inter> dom t = {}"
  using assms
proof (induction xs arbitrary: t)
  case Nil
  then show ?case by simp
next
  case (Cons x xs)
  let ?t = "t(resolve G x \<mapsto> fst x)"
  from Cons.prems have x_ne: "resolve G x \<noteq> []" and x_new: "t (resolve G x) = None"
    and r: "newFromPolicy_sources G xs ?t = Inr t'"
    by (auto split: if_splits)
  from Cons.IH [OF r] have 1: "\<forall>y \<in> set xs. resolve G y \<noteq> []"
    and 2: "distinct (map (resolve G) xs)"
    and 3: "resolve G ` set xs \<inter> dom ?t = {}"
    by auto
  from 3 have "resolve G x \<notin> resolve G ` set xs" by auto
  moreover from 3 have "resolve G ` set xs \<inter> dom t = {}" by auto
  ultimately show ?case using x_ne x_new 1 2 by auto
qed


text \<open>
  What a successful build has made: the table's keys are the resolved values of the
  sources, all non-empty and pairwise distinct, each mapped to the subject that
  declares the source.
\<close>

lemma newFromPolicy_built:
  assumes "newFromPolicy G c lg = Inr s"
  shows "logger s = lg"
    and "\<forall>y \<in> set (sources c). resolve G y \<noteq> []"
    and "distinct (map (resolve G) (sources c))"
    and "dom (tokens s) = resolve G ` set (sources c)"
    and "\<forall>y \<in> set (sources c). tokens s (resolve G y) = Some (fst y)"
proof -
  from assms obtain t where
    r: "newFromPolicy_sources G (sources c) Map.empty = Inr t"
    and s: "s = \<lparr>tokens = t, logger = lg\<rparr>"
    by (auto simp: newFromPolicy_as_sources split: sum.splits)
  from s show "logger s = lg" by simp
  from sources_success [OF r]
  have 1: "\<forall>y \<in> set (sources c). resolve G y \<noteq> []"
    and 2: "distinct (map (resolve G) (sources c))"
    by auto
  show "\<forall>y \<in> set (sources c). resolve G y \<noteq> []" by (rule 1)
  show "distinct (map (resolve G) (sources c))" by (rule 2)
  have 3: "resolve G ` set (sources c) \<inter> dom (Map.empty :: string \<rightharpoonup> policySubject) = {}"
    by simp
  from sources_good_prefix [OF 1 2 3] r s
  show "dom (tokens s) = resolve G ` set (sources c)"
    and "\<forall>y \<in> set (sources c). tokens s (resolve G y) = Some (fst y)"
    by auto
qed








section \<open>Properties of the request handlers\<close>

text \<open>
  The build on the example inputs, evaluated.
\<close>

lemma example_built:
  "newFromPolicy example_Getenv example_policy [] = Inr example_server"
  by (simp add: newFromPolicy_def example_policy_def example_subject_def example_Getenv_def
      example_server_def)

lemma sources_example_policy:
  "sources example_policy = [(example_subject, \<lparr>EnvVar = ''TOKEN_A''\<rparr>)]"
  by (simp add: sources_def example_policy_def example_subject_def)

text \<open>
  A handler changes the server in one way only: it appends its log line.
\<close>

lemma AuthenticateSubject_state:
  "snd (AuthenticateSubject s req)
     = s\<lparr>logger := logger s @ [''received AuthenticateSubject request'']\<rparr>"
  by (simp add: AuthenticateSubject_def Info_def Let_def split: option.splits)

lemma CheckAccess_state:
  "snd (CheckAccess s req) = s\<lparr>logger := logger s @ [''received CheckAccess request'']\<rparr>"
  by (simp add: CheckAccess_def Info_def Let_def split: option.splits)

lemma serve_tokens: "tokens (serve s r) = tokens s"
  by (cases r) (simp_all add: AuthenticateSubject_state CheckAccess_state)

lemma serve_all_tokens: "tokens (serve_all s reqs) = tokens s"
  unfolding serve_all_def
  by (induction reqs arbitrary: s) (simp_all add: serve_tokens)

lemma AuthenticateSubject_miss:
  "tokens s (AuthenticateSubjectRequest.Credential req) = None \<Longrightarrow>
     fst (AuthenticateSubject s req) = Inl (Status Unauthenticated ''invalid credential'')"
  by (simp add: AuthenticateSubject_def Let_def)

lemma AuthenticateSubject_hit:
  "tokens s (AuthenticateSubjectRequest.Credential req) = Some sub \<Longrightarrow>
     fst (AuthenticateSubject s req)
       = Inr \<lparr>SubjectClaims = [''sub'' \<mapsto> policySubject.ID sub]\<rparr>"
  by (simp add: AuthenticateSubject_def Let_def)

text \<open>
  Claim C4. On a table built by \<open>newFromPolicy\<close>: a credential that is not a key
  of the table is refused with the \<open>Unauthenticated\<close> status; a key of the table
  is always the resolved value of some declared source; for a credential that is the
  value of a source of subject \<open>sub\<close> the handler succeeds and the claims it returns
  name \<open>sub\<close>'s identifier and nothing else. The handler leaves the table as it
  was: the server it returns differs only by the log line.
\<close>

theorem AuthenticateSubject_built:
  assumes "newFromPolicy Getenv c lg = Inr s"
  shows "(AuthenticateSubjectRequest.Credential req \<notin> dom (tokens s) \<longrightarrow>
            fst (AuthenticateSubject s req) = Inl (Status Unauthenticated ''invalid credential''))
       \<and> (AuthenticateSubjectRequest.Credential req \<in> dom (tokens s) \<longrightarrow>
            (\<exists>sub tok. (sub, tok) \<in> set (sources c)
               \<and> Getenv (EnvVar tok) = AuthenticateSubjectRequest.Credential req))
       \<and> (\<forall>sub tok. (sub, tok) \<in> set (sources c)
               \<and> Getenv (EnvVar tok) = AuthenticateSubjectRequest.Credential req \<longrightarrow>
            (\<exists>resp. fst (AuthenticateSubject s req) = Inr resp
               \<and> ran (SubjectClaims resp) = {policySubject.ID sub}))
       \<and> snd (AuthenticateSubject s req)
            = s\<lparr>logger := logger s @ [''received AuthenticateSubject request'']\<rparr>
       \<and> tokens (snd (AuthenticateSubject s req)) = tokens s"
proof (intro conjI impI allI)
  assume "AuthenticateSubjectRequest.Credential req \<notin> dom (tokens s)"
  then show "fst (AuthenticateSubject s req) = Inl (Status Unauthenticated ''invalid credential'')"
    by (simp add: AuthenticateSubject_miss domIff)
next
  assume "AuthenticateSubjectRequest.Credential req \<in> dom (tokens s)"
  with newFromPolicy_built(4) [OF assms] obtain y where
    "y \<in> set (sources c)" and "resolve Getenv y = AuthenticateSubjectRequest.Credential req"
    by auto
  then have "(fst y, snd y) \<in> set (sources c)
               \<and> Getenv (EnvVar (snd y)) = AuthenticateSubjectRequest.Credential req"
    by (simp add: resolve_def)
  then show "\<exists>sub tok. (sub, tok) \<in> set (sources c)
               \<and> Getenv (EnvVar tok) = AuthenticateSubjectRequest.Credential req"
    by blast
next
  fix sub tok
  assume "(sub, tok) \<in> set (sources c)
               \<and> Getenv (EnvVar tok) = AuthenticateSubjectRequest.Credential req"
  with newFromPolicy_built(5) [OF assms]
  have "tokens s (AuthenticateSubjectRequest.Credential req) = Some sub"
    by (auto simp: resolve_def)
  then have "fst (AuthenticateSubject s req)
       = Inr \<lparr>SubjectClaims = [''sub'' \<mapsto> policySubject.ID sub]\<rparr>"
    by (rule AuthenticateSubject_hit)
  then show "\<exists>resp. fst (AuthenticateSubject s req) = Inr resp
               \<and> ran (SubjectClaims resp) = {policySubject.ID sub}"
    by simp
next
  show "snd (AuthenticateSubject s req)
            = s\<lparr>logger := logger s @ [''received AuthenticateSubject request'']\<rparr>"
    by (rule AuthenticateSubject_state)
next
  show "tokens (snd (AuthenticateSubject s req)) = tokens s"
    by (simp add: AuthenticateSubject_state)
qed

theorem AuthenticateSubject_built_witness:
  "newFromPolicy example_Getenv example_policy [] = Inr example_server
   \<and> ''wrong'' \<notin> dom (tokens example_server)
   \<and> fst (AuthenticateSubject example_server
            \<lparr>AuthenticateSubjectRequest.Credential = ''wrong''\<rparr>)
       = Inl (Status Unauthenticated ''invalid credential'')
   \<and> tokens (snd (AuthenticateSubject example_server
            \<lparr>AuthenticateSubjectRequest.Credential = ''wrong''\<rparr>))
       = tokens example_server
   \<and> (example_subject, \<lparr>EnvVar = ''TOKEN_A''\<rparr>) \<in> set (sources example_policy)
   \<and> example_Getenv ''TOKEN_A'' = ''abc123''
   \<and> (\<exists>resp. fst (AuthenticateSubject example_server
                   \<lparr>AuthenticateSubjectRequest.Credential = ''abc123''\<rparr>) = Inr resp
          \<and> ran (SubjectClaims resp) = {''svc-a''})"
proof -
  let ?wrong = "\<lparr>AuthenticateSubjectRequest.Credential = ''wrong''\<rparr>"
  let ?right = "\<lparr>AuthenticateSubjectRequest.Credential = ''abc123''\<rparr>"
  have miss: "AuthenticateSubjectRequest.Credential ?wrong \<notin> dom (tokens example_server)"
    by (simp add: example_server_def)
  have hit: "(example_subject, \<lparr>EnvVar = ''TOKEN_A''\<rparr>) \<in> set (sources example_policy)
      \<and> example_Getenv (EnvVar \<lparr>EnvVar = ''TOKEN_A''\<rparr>)
          = AuthenticateSubjectRequest.Credential ?right"
    by (simp add: sources_example_policy example_Getenv_def)
  note on_wrong = AuthenticateSubject_built [OF example_built, of ?wrong]
  note on_right = AuthenticateSubject_built [OF example_built, of ?right]
  from on_wrong miss
  have 1: "fst (AuthenticateSubject example_server ?wrong)
             = Inl (Status Unauthenticated ''invalid credential'')"
    by blast
  from on_wrong
  have 2: "tokens (snd (AuthenticateSubject example_server ?wrong)) = tokens example_server"
    by blast
  from conjunct1 [OF conjunct2 [OF conjunct2 [OF on_right]], rule_format, OF hit]
  have 3: "\<exists>resp. fst (AuthenticateSubject example_server ?right) = Inr resp
          \<and> ran (SubjectClaims resp) = {''svc-a''}"
    by (simp add: example_subject_def)
  from example_built miss hit 1 2 3 show ?thesis
    by simp
qed

text \<open>
  Claim C5, as stated, says the claim map has the key \<open>subject\<close>. On the
  specification's own example (\<open>svc-a\<close>, \<open>TOKEN_A=abc123\<close>) the map returned for
  \<open>abc123\<close> has no entry under \<open>subject\<close>.
\<close>

theorem AuthenticateSubject_claims_counterexample:
  "newFromPolicy example_Getenv example_policy [] = Inr example_server
   \<and> tokens example_server ''abc123'' = Some example_subject
   \<and> \<not> isl (fst (AuthenticateSubject example_server
                    \<lparr>AuthenticateSubjectRequest.Credential = ''abc123''\<rparr>))
   \<and> SubjectClaims (projr (fst (AuthenticateSubject example_server
                    \<lparr>AuthenticateSubjectRequest.Credential = ''abc123''\<rparr>))) ''subject''
       \<noteq> Some (policySubject.ID example_subject)"
  by (simp add: newFromPolicy_def example_policy_def example_subject_def example_Getenv_def
      example_server_def AuthenticateSubject_def Let_def)

text \<open>
  Claim C5, amended: for a built table and a credential that is the resolved value of
  a source of subject \<open>sub\<close>, the handler returns the claim map with the single key
  \<open>sub\<close>, mapped to the subject's identifier.
\<close>

theorem AuthenticateSubject_claims:
  assumes "newFromPolicy Getenv c lg = Inr s"
    and "(sub, tok) \<in> set (sources c)"
    and "Getenv (EnvVar tok) = AuthenticateSubjectRequest.Credential req"
  shows "fst (AuthenticateSubject s req)
           = Inr \<lparr>SubjectClaims = [''sub'' \<mapsto> policySubject.ID sub]\<rparr>"
proof -
  from newFromPolicy_built(5) [OF assms(1)] assms(2,3)
  have "tokens s (AuthenticateSubjectRequest.Credential req) = Some sub"
    by (auto simp: resolve_def)
  then show ?thesis by (rule AuthenticateSubject_hit)
qed

theorem AuthenticateSubject_claims_witness:
  "newFromPolicy example_Getenv example_policy [] = Inr example_server
   \<and> (example_subject, \<lparr>EnvVar = ''TOKEN_A''\<rparr>) \<in> set (sources example_policy)
   \<and> example_Getenv (EnvVar \<lparr>EnvVar = ''TOKEN_A''\<rparr>)
       = AuthenticateSubjectRequest.Credential
           \<lparr>AuthenticateSubjectRequest.Credential = ''abc123''\<rparr>
   \<and> fst (AuthenticateSubject example_server
            \<lparr>AuthenticateSubjectRequest.Credential = ''abc123''\<rparr>)
       = Inr \<lparr>SubjectClaims = [''sub'' \<mapsto> ''svc-a'']\<rparr>"
proof -
  have h2: "(example_subject, \<lparr>EnvVar = ''TOKEN_A''\<rparr>) \<in> set (sources example_policy)"
    by (simp add: sources_example_policy)
  have h3: "example_Getenv (EnvVar \<lparr>EnvVar = ''TOKEN_A''\<rparr>)
       = AuthenticateSubjectRequest.Credential
           \<lparr>AuthenticateSubjectRequest.Credential = ''abc123''\<rparr>"
    by (simp add: example_Getenv_def)
  from AuthenticateSubject_claims [OF example_built h2 h3]
  show ?thesis
    using example_built h2 h3 by (simp add: example_subject_def)
qed



lemma CheckAccess_authenticated:
  "tokens s (CheckAccessRequest.Credential req) = Some sub \<Longrightarrow>
     fst (CheckAccess s req) = CheckAccess_actions sub (CheckAccessRequest.Actions req)"
  by (simp add: CheckAccess_def Let_def)



text \<open>
  Claim C9. A request whose credential is a key of the table and whose sequence of
  pairs is empty succeeds, whatever the subject is granted.
\<close>

theorem CheckAccess_no_actions:
  assumes "CheckAccessRequest.Credential req \<in> dom (tokens s)"
    and "CheckAccessRequest.Actions req = []"
  shows "fst (CheckAccess s req) = Inr CheckAccessResponse"
proof -
  from assms(1) obtain sub where "tokens s (CheckAccessRequest.Credential req) = Some sub"
    by blast
  from CheckAccess_authenticated [OF this] assms(2) show ?thesis
    by simp
qed

theorem CheckAccess_no_actions_witness:
  "CheckAccessRequest.Credential
     \<lparr>CheckAccessRequest.Credential = ''abc123'', CheckAccessRequest.Actions = []\<rparr>
     \<in> dom (tokens example_server)
   \<and> CheckAccessRequest.Actions
       \<lparr>CheckAccessRequest.Credential = ''abc123'', CheckAccessRequest.Actions = []\<rparr> = []
   \<and> fst (CheckAccess example_server
        \<lparr>CheckAccessRequest.Credential = ''abc123'', CheckAccessRequest.Actions = []\<rparr>)
       = Inr CheckAccessResponse"
proof -
  let ?req = "\<lparr>CheckAccessRequest.Credential = ''abc123'', CheckAccessRequest.Actions = []\<rparr>"
  have h1: "CheckAccessRequest.Credential ?req \<in> dom (tokens example_server)"
    by (simp add: example_server_def)
  have h2: "CheckAccessRequest.Actions ?req = []"
    by simp
  from CheckAccess_no_actions [OF h1 h2] h1 show ?thesis
    by simp
qed

text \<open>
  Claim C10. The keys of a table built by \<open>newFromPolicy\<close> are non-empty strings.
  The table stays the same through any sequence of requests served, so at any later
  moment \<open>AuthenticateSubject\<close> refuses the empty credential with the
  \<open>Unauthenticated\<close> status.
\<close>

theorem newFromPolicy_keys_nonempty:
  assumes "newFromPolicy Getenv c lg = Inr s"
  shows "(\<forall>k \<in> dom (tokens s). k \<noteq> [])
       \<and> tokens (serve_all s reqs) = tokens s
       \<and> fst (AuthenticateSubject (serve_all s reqs)
                \<lparr>AuthenticateSubjectRequest.Credential = []\<rparr>)
           = Inl (Status Unauthenticated ''invalid credential'')"
proof -
  from newFromPolicy_built(2,4) [OF assms]
  have k: "\<forall>k \<in> dom (tokens s). k \<noteq> []"
    by auto
  then have "tokens s [] = None"
    by (auto simp: domIff)
  then have "tokens (serve_all s reqs)
      (AuthenticateSubjectRequest.Credential \<lparr>AuthenticateSubjectRequest.Credential = []\<rparr>) = None"
    by (simp add: serve_all_tokens)
  from AuthenticateSubject_miss [OF this] k show ?thesis
    by (simp add: serve_all_tokens)
qed

theorem newFromPolicy_keys_nonempty_witness:
  "newFromPolicy example_Getenv example_policy [] = Inr example_server
   \<and> [] \<notin> dom (tokens example_server)
   \<and> fst (AuthenticateSubject
        (serve_all example_server
           [AuthenticateSubjectCall \<lparr>AuthenticateSubjectRequest.Credential = ''abc123''\<rparr>,
            CheckAccessCall \<lparr>CheckAccessRequest.Credential = ''abc123'',
              CheckAccessRequest.Actions = [\<lparr>Action = ''read'', ResourceId = ''db1''\<rparr>]\<rparr>])
        \<lparr>AuthenticateSubjectRequest.Credential = []\<rparr>)
       = Inl (Status Unauthenticated ''invalid credential'')"
  using newFromPolicy_keys_nonempty [OF example_built,
      of "[AuthenticateSubjectCall \<lparr>AuthenticateSubjectRequest.Credential = ''abc123''\<rparr>,
            CheckAccessCall \<lparr>CheckAccessRequest.Credential = ''abc123'',
              CheckAccessRequest.Actions = [\<lparr>Action = ''read'', ResourceId = ''db1''\<rparr>]\<rparr>]"]
    example_built
  by blast

end
